theory Spec2Isabelle
  imports Complex_Main
begin

section \<open>Data model of \<open>smart_retry_handler.py\<close>\<close>

text \<open>
  The handler is embedded shallowly. Python's unbounded \<open>int\<close> is \<open>int\<close>. Python's
  \<open>float\<close> (delays in seconds, \<open>time.time()\<close> readings) is idealised as \<open>real\<close>:
  rounding and NaN are not part of the model. The one exception that the handler's
  float arithmetic can raise, the \<open>OverflowError\<close> of the power in
  \<open>calculate_delay\<close>, is part of it. The dictionary
  \<open>self.circuit_breakers\<close> is a map from keys to breaker records; every method that
  mutates it returns the updated map. A reading of \<open>time.time()\<close> is an argument
  of the method that takes it.
\<close>

datatype ErrorType =
  RATE_LIMIT | SERVER_ERROR | NETWORK_ERROR | TIMEOUT_ERROR | SERVICE_UNAVAILABLE | UNKNOWN

record SmartRetryConfig =
  max_attempts :: int
  base_delay :: real
  max_delay :: real
  exponential_factor :: real
  jitter :: bool
  failure_threshold :: int
  recovery_timeout :: real
  half_open_max_calls :: int
  rate_limit_recovery_multiplier :: real

text \<open>The field \<open>state\<close> is a Python string; the code only ever stores the three
  literals \<open>CLOSED\<close>, \<open>OPEN\<close> and \<open>HALF_OPEN\<close> in it.\<close>

record SmartCircuitBreakerState =
  failure_count :: int
  success_count :: int
  last_failure_time :: "real option"
  last_success_time :: "real option"
  state :: string
  half_open_calls :: int
  consecutive_rate_limits :: int
  last_rate_limit_time :: "real option"

text \<open>\<open>SmartCircuitBreakerState()\<close>: the dataclass defaults.\<close>

definition SmartCircuitBreakerState_init :: SmartCircuitBreakerState where
  "SmartCircuitBreakerState_init =
     \<lparr>failure_count = 0, success_count = 0, last_failure_time = None,
      last_success_time = None, state = ''CLOSED'', half_open_calls = 0,
      consecutive_rate_limits = 0, last_rate_limit_time = None\<rparr>"

type_synonym breakers = "string \<rightharpoonup> SmartCircuitBreakerState"

section \<open>Error classification\<close>

text \<open>
  An exception caught by the handler is modelled by what \<open>classify_error\<close> reads from
  it: the branch of the \<open>isinstance\<close> chain it falls in, the status code of the
  response of an \<open>httpx.HTTPStatusError\<close>, and \<open>str(error)\<close>. \<open>TimeoutException\<close>
  stands for instances of \<open>httpx.TimeoutException\<close> or \<open>asyncio.TimeoutError\<close>,
  \<open>NetworkError\<close> for instances of \<open>httpx.NetworkError\<close> or \<open>httpx.ConnectError\<close>
  that are not timeouts, \<open>OtherException\<close> for every other \<open>Exception\<close>.
  Messages are ASCII strings.
\<close>

datatype exn =
  HTTPStatusError int string
  | TimeoutException string
  | NetworkError string
  | OtherException string

fun str :: "exn \<Rightarrow> string" where
  "str (HTTPStatusError status_code msg) = msg"
| "str (TimeoutException msg) = msg"
| "str (NetworkError msg) = msg"
| "str (OtherException msg) = msg"

definition lower_char :: "char \<Rightarrow> char" where
  "lower_char c =
     (case map_of (zip ''ABCDEFGHIJKLMNOPQRSTUVWXYZ'' ''abcdefghijklmnopqrstuvwxyz'') c of
        Some l \<Rightarrow> l
      | None \<Rightarrow> c)"

definition lower :: "string \<Rightarrow> string" where
  "lower s = map lower_char s"

fun startswith :: "string \<Rightarrow> string \<Rightarrow> bool" where
  "startswith s [] = True"
| "startswith [] (p # ps) = False"
| "startswith (c # cs) (p # ps) = (c = p \<and> startswith cs ps)"

text \<open>\<open>contains s sub\<close> is Python's \<open>sub in s\<close> on strings.\<close>

fun contains :: "string \<Rightarrow> string \<Rightarrow> bool" where
  "contains [] sub = (sub = [])"
| "contains (c # cs) sub = (startswith (c # cs) sub \<or> contains cs sub)"

text \<open>An \<open>HTTPStatusError\<close> whose status matches none of the inner tests leaves the
  whole \<open>if\<close>/\<open>elif\<close> chain and is \<open>UNKNOWN\<close>: its message is not searched.\<close>

definition classify_error :: "exn \<Rightarrow> ErrorType" where
  "classify_error error =
     (let error_str = lower (str error)
      in case error of
           HTTPStatusError status_code msg \<Rightarrow>
             if status_code = 429 then RATE_LIMIT
             else if status_code \<in> set [502, 503, 504] then SERVICE_UNAVAILABLE
             else if 500 \<le> status_code \<and> status_code < 600 then SERVER_ERROR
             else UNKNOWN
         | TimeoutException msg \<Rightarrow> TIMEOUT_ERROR
         | NetworkError msg \<Rightarrow> NETWORK_ERROR
         | OtherException msg \<Rightarrow>
             if contains error_str ''rate limit'' \<or> contains error_str ''quota''
             then RATE_LIMIT
             else if contains error_str ''service unavailable''
                     \<or> contains error_str ''overloaded''
             then SERVICE_UNAVAILABLE
             else if list_ex (\<lambda>code. contains error_str code)
                       [''500'', ''502'', ''503'', ''504'', ''507'']
             then SERVER_ERROR
             else UNKNOWN)"

section \<open>Backoff delay\<close>

text \<open>
  \<open>float_pow x n\<close> is Python's \<open>x ** n\<close> for a float \<open>x\<close> and an int \<open>n\<close>. The
  exponent is converted to a float first, which raises \<open>OverflowError\<close> for an int
  beyond the double range; zero to a negative power raises \<open>ZeroDivisionError\<close>; a
  power beyond the double range raises \<open>OverflowError\<close>. A value is beyond the double
  range when it rounds to an infinity, that is from \<open>2^1024 - 2^970\<close> on in absolute
  value (the largest double is \<open>2^1024 - 2^971\<close>). A power that underflows is not an
  error in Python.

  \<open>power_in_range x n\<close> says of a power with exponent \<open>n \<ge> 0\<close> that neither
  \<open>OverflowError\<close> is raised.

  \<open>uniform a b u\<close> is \<open>random.uniform(a, b)\<close>, which returns
  \<open>a + (b - a) * random()\<close>; the draw \<open>u\<close> of \<open>random()\<close>, a number in \<open>[0, 1)\<close>,
  is an argument.
\<close>

datatype py_error = ZeroDivisionError | OverflowError

definition rounds_to_inf :: "real \<Rightarrow> bool" where
  "rounds_to_inf v \<longleftrightarrow> 2 ^ 1024 - 2 ^ 970 \<le> \<bar>v\<bar>"

definition float_pow :: "real \<Rightarrow> int \<Rightarrow> py_error + real" where
  "float_pow x n =
     (if rounds_to_inf (real_of_int n) then Inl OverflowError
      else if n \<ge> 0 then
        (if rounds_to_inf (x ^ nat n) then Inl OverflowError else Inr (x ^ nat n))
      else if x = 0 then Inl ZeroDivisionError
      else if rounds_to_inf (1 / x ^ nat (- n)) then Inl OverflowError
      else Inr (1 / x ^ nat (- n)))"

definition power_in_range :: "real \<Rightarrow> int \<Rightarrow> bool" where
  "power_in_range x n \<longleftrightarrow> \<not> rounds_to_inf (real_of_int n) \<and> \<not> rounds_to_inf (x ^ nat n)"

definition uniform :: "real \<Rightarrow> real \<Rightarrow> real \<Rightarrow> real" where
  "uniform a b u = a + (b - a) * u"

definition calculate_delay ::
  "SmartRetryConfig \<Rightarrow> int \<Rightarrow> ErrorType \<Rightarrow> real option \<Rightarrow> real \<Rightarrow> py_error + real" where
  "calculate_delay config attempt error_type retry_after u =
     (let exponential =
            (case float_pow (exponential_factor config) (attempt - 1) of
               Inl err \<Rightarrow> Inl err
             | Inr p \<Rightarrow> Inr (base_delay config * p));
          uncapped =
            (case retry_after of
               Some ra \<Rightarrow>
                 if error_type = RATE_LIMIT
                 then Inr (ra * rate_limit_recovery_multiplier config)
                 else exponential
             | None \<Rightarrow> exponential)
      in case uncapped of
           Inl err \<Rightarrow> Inl err
         | Inr delay0 \<Rightarrow>
             (let delay = min delay0 (max_delay config)
              in if jitter config then
                   (let jitter_range = delay * 0.25;
                        jit = uniform (- jitter_range) jitter_range u
                    in Inr (max 0.1 (delay + jit)))
                 else Inr delay))"

definition should_retry :: "SmartRetryConfig \<Rightarrow> exn \<Rightarrow> int \<Rightarrow> bool" where
  "should_retry config error attempt =
     (if attempt \<ge> max_attempts config then False
      else classify_error error \<in>
             set [RATE_LIMIT, SERVER_ERROR, NETWORK_ERROR, TIMEOUT_ERROR, SERVICE_UNAVAILABLE])"

section \<open>The circuit breaker\<close>

text \<open>\<open>check_circuit_breaker\<close> returns its Boolean result and the updated dictionary.
  The entry of an unseen key is created first, as in the source.\<close>

definition check_circuit_breaker ::
  "SmartRetryConfig \<Rightarrow> breakers \<Rightarrow> string \<Rightarrow> real \<Rightarrow> bool \<times> breakers" where
  "check_circuit_breaker config circuit_breakers key current_time =
     (let cbs = (case circuit_breakers key of
                   None \<Rightarrow> circuit_breakers(key \<mapsto> SmartCircuitBreakerState_init)
                 | Some _ \<Rightarrow> circuit_breakers);
          breaker = (case cbs key of None \<Rightarrow> SmartCircuitBreakerState_init | Some b \<Rightarrow> b)
      in if state breaker = ''OPEN'' then
           (let failure_time =
                  (if last_failure_time breaker = None \<and> last_rate_limit_time breaker \<noteq> None
                   then last_rate_limit_time breaker
                   else last_failure_time breaker)
            in case failure_time of
                 Some t \<Rightarrow>
                   if current_time - t > recovery_timeout config
                   then (True, cbs(key \<mapsto> breaker\<lparr>state := ''HALF_OPEN'', half_open_calls := 0\<rparr>))
                   else (False, cbs)
               | None \<Rightarrow>
                   (True, cbs(key \<mapsto> breaker\<lparr>state := ''HALF_OPEN'', half_open_calls := 0\<rparr>)))
         else if state breaker = ''HALF_OPEN'' then
           (if half_open_calls breaker < half_open_max_calls config
            then (True, cbs(key \<mapsto> breaker\<lparr>half_open_calls := half_open_calls breaker + 1\<rparr>))
            else (False, cbs))
         else (True, cbs))"

text \<open>\<open>record_success\<close> does nothing for a key that has no entry
  (\<open>if key in self.circuit_breakers\<close>).\<close>

definition record_success :: "breakers \<Rightarrow> string \<Rightarrow> real \<Rightarrow> breakers" where
  "record_success circuit_breakers key current_time =
     (case circuit_breakers key of
        None \<Rightarrow> circuit_breakers
      | Some breaker0 \<Rightarrow>
          (let breaker = breaker0\<lparr>success_count := success_count breaker0 + 1,
                                  last_success_time := Some current_time,
                                  consecutive_rate_limits := 0\<rparr>
           in if state breaker = ''HALF_OPEN'' then
                (if success_count breaker \<ge> 2
                 then circuit_breakers(key \<mapsto> breaker\<lparr>state := ''CLOSED'', failure_count := 0\<rparr>)
                 else circuit_breakers(key \<mapsto> breaker))
              else if state breaker = ''CLOSED'' then
                circuit_breakers(key \<mapsto> breaker\<lparr>failure_count := max 0 (failure_count breaker - 1)\<rparr>)
              else circuit_breakers(key \<mapsto> breaker)))"

definition record_failure ::
  "SmartRetryConfig \<Rightarrow> breakers \<Rightarrow> string \<Rightarrow> ErrorType \<Rightarrow> real \<Rightarrow> breakers" where
  "record_failure config circuit_breakers key error_type current_time =
     (let breaker0 = (case circuit_breakers key of
                        None \<Rightarrow> SmartCircuitBreakerState_init | Some b \<Rightarrow> b);
          breaker =
            (if error_type = RATE_LIMIT then
               (let b1 = breaker0\<lparr>consecutive_rate_limits := consecutive_rate_limits breaker0 + 1,
                                  last_rate_limit_time := Some current_time\<rparr>
                in if consecutive_rate_limits b1 > 15
                   then b1\<lparr>failure_count := failure_count b1 + 1\<rparr>
                   else b1)
             else breaker0\<lparr>failure_count := failure_count breaker0 + 1,
                           last_failure_time := Some current_time\<rparr>)
      in if failure_count breaker \<ge> failure_threshold config then
           (if state breaker \<noteq> ''OPEN''
            then circuit_breakers(key \<mapsto> breaker\<lparr>state := ''OPEN''\<rparr>)
            else circuit_breakers(key \<mapsto> breaker))
         else if state breaker = ''HALF_OPEN'' then
           circuit_breakers(key \<mapsto> breaker\<lparr>state := ''OPEN'',
                                            last_failure_time := Some current_time\<rparr>)
         else circuit_breakers(key \<mapsto> breaker))"

text \<open>\<open>get_circuit_breaker_status\<close> returns a dictionary with string keys; its
  values are a string, integers and optional time stamps. The dictionary is the list
  of its items in insertion order.\<close>

datatype status_value = Str string | Num int | Time "real option"

definition get_circuit_breaker_status :: "breakers \<Rightarrow> string \<Rightarrow> (string \<times> status_value) list" where
  "get_circuit_breaker_status circuit_breakers key =
     (case circuit_breakers key of
        None \<Rightarrow>
          [(''state'', Str ''CLOSED''), (''failure_count'', Num 0), (''success_count'', Num 0)]
      | Some breaker \<Rightarrow>
          [(''state'', Str (state breaker)),
           (''failure_count'', Num (failure_count breaker)),
           (''success_count'', Num (success_count breaker)),
           (''consecutive_rate_limits'', Num (consecutive_rate_limits breaker)),
           (''last_failure_time'', Time (last_failure_time breaker)),
           (''last_success_time'', Time (last_success_time breaker)),
           (''last_rate_limit_time'', Time (last_rate_limit_time breaker))])"


section \<open>The retry loop\<close>

text \<open>
  \<open>execute_with_retry\<close> runs against a world: \<open>func w a\<close> is the outcome of the call
  of the wrapped operation made in attempt \<open>a\<close> (\<open>Inl\<close> the \<open>Exception\<close> it raises,
  \<open>Inr\<close> its result), \<open>clock w 0\<close> the reading of \<open>time.time()\<close> in the gate check,
  \<open>clock w a\<close> the reading when the outcome of attempt \<open>a\<close> is recorded,
  \<open>random_draw w a\<close> the draw of \<open>random()\<close> in the delay after attempt \<open>a\<close>.
  \<open>extract_retry_after\<close> (a regular-expression search of the message and a header
  lookup) is not embedded: it is a component of the world, and every theorem holds
  for each such function.

  The run state carries the dictionary, the local \<open>last_error\<close>, and a trace: the
  attempts in which the operation was invoked and the delays passed to
  \<open>asyncio.sleep\<close>, in order.

  A run ends with the result of the operation or with a failure: the \<open>RuntimeError\<close>
  of a rejected call, the re-raised \<open>last_error\<close>, the \<open>RuntimeError\<close> raised when no
  error was captured, or (\<open>Delay_error\<close>) an exception that \<open>calculate_delay\<close> raises
  inside the \<open>except\<close> block, which nothing catches.
\<close>

datatype failure =
  RuntimeError_circuit_open string
  | Reraised exn
  | RuntimeError_no_error_captured
  | Delay_error py_error

record 'a world =
  func :: "int \<Rightarrow> exn + 'a"
  clock :: "int \<Rightarrow> real"
  random_draw :: "int \<Rightarrow> real"
  extract_retry_after :: "exn \<Rightarrow> real option"

record run_state =
  circuit_breakers :: breakers
  last_error :: "exn option"
  invoked :: "int list"
  sleeps :: "real list"

text \<open>The statements after the \<open>for\<close> loop.\<close>

definition after_loop :: "run_state \<Rightarrow> (failure + 'a) \<times> run_state" where
  "after_loop st =
     (case last_error st of
        Some error \<Rightarrow> (Inl (Reraised error), st)
      | None \<Rightarrow> (Inl RuntimeError_no_error_captured, st))"

text \<open>The \<open>for attempt in range(1, effective_max_attempts + 1)\<close> loop from \<open>attempt\<close>
  on. \<open>if circuit_breaker_key\<close> holds for a key that is neither \<open>None\<close> nor empty.\<close>

function retry_loop ::
  "SmartRetryConfig \<Rightarrow> 'a world \<Rightarrow> string option \<Rightarrow> int \<Rightarrow> int \<Rightarrow> run_state
     \<Rightarrow> (failure + 'a) \<times> run_state" where
  "retry_loop config w circuit_breaker_key effective_max_attempts attempt st =
     (if attempt > effective_max_attempts then after_loop st
      else
        (case func w attempt of
           Inr result \<Rightarrow>
             (Inr result,
              st\<lparr>invoked := invoked st @ [attempt],
                 circuit_breakers :=
                   (case circuit_breaker_key of
                      Some key \<Rightarrow>
                        if key \<noteq> [] then record_success (circuit_breakers st) key (clock w attempt)
                        else circuit_breakers st
                    | None \<Rightarrow> circuit_breakers st)\<rparr>)
         | Inl error \<Rightarrow>
             (let error_type = classify_error error;
                  st1 = st\<lparr>invoked := invoked st @ [attempt],
                           last_error := Some error,
                           circuit_breakers :=
                             (case circuit_breaker_key of
                                Some key \<Rightarrow>
                                  if key \<noteq> []
                                  then record_failure config (circuit_breakers st) key error_type
                                         (clock w attempt)
                                  else circuit_breakers st
                              | None \<Rightarrow> circuit_breakers st)\<rparr>
              in if \<not> should_retry config error attempt then after_loop st1
                 else if attempt \<ge> effective_max_attempts then after_loop st1
                 else
                   (case calculate_delay config attempt error_type
                           (extract_retry_after w error) (random_draw w attempt) of
                      Inl err \<Rightarrow> (Inl (Delay_error err), st1)
                    | Inr delay \<Rightarrow>
                        retry_loop config w circuit_breaker_key effective_max_attempts
                          (attempt + 1) (st1\<lparr>sleeps := sleeps st1 @ [delay]\<rparr>)))))"
  by pat_completeness auto
termination
  by (relation "measure (\<lambda>(config, w, key, n, attempt, st). nat (n + 1 - attempt))") auto

text \<open>\<open>max_attempts or self.config.max_attempts\<close>: an override that is \<open>None\<close> or \<open>0\<close>
  gives the policy's value.\<close>

definition execute_with_retry ::
  "SmartRetryConfig \<Rightarrow> breakers \<Rightarrow> 'a world \<Rightarrow> string option \<Rightarrow> int option
     \<Rightarrow> (failure + 'a) \<times> run_state" where
  "execute_with_retry config cbs w circuit_breaker_key max_attempts_arg =
     (let gate = (case circuit_breaker_key of
                    Some key \<Rightarrow>
                      if key \<noteq> [] then check_circuit_breaker config cbs key (clock w 0)
                      else (True, cbs)
                  | None \<Rightarrow> (True, cbs));
          st = \<lparr>circuit_breakers = snd gate, last_error = None, invoked = [], sleeps = []\<rparr>
      in if \<not> fst gate
         then (Inl (RuntimeError_circuit_open
                      (case circuit_breaker_key of Some key \<Rightarrow> key | None \<Rightarrow> [])), st)
         else
           (let effective_max_attempts =
                  (case max_attempts_arg of
                     Some n \<Rightarrow> if n \<noteq> 0 then n else max_attempts config
                   | None \<Rightarrow> max_attempts config)
            in retry_loop config w circuit_breaker_key effective_max_attempts 1 st))"

section \<open>Runs of calls, and the policy and worlds of the worked examples\<close>

text \<open>Consecutive \<open>record_failure\<close> calls on one key, one per time stamp.\<close>

definition record_failures ::
  "SmartRetryConfig \<Rightarrow> breakers \<Rightarrow> string \<Rightarrow> ErrorType \<Rightarrow> real list \<Rightarrow> breakers" where
  "record_failures config cbs key error_type ts =
     foldl (\<lambda>m t. record_failure config m key error_type t) cbs ts"

text \<open>Any sequence of calls of the three mutating methods of the store.\<close>

datatype breaker_call =
  Check string real | Success string real | Failure string ErrorType real

fun apply_call :: "SmartRetryConfig \<Rightarrow> breakers \<Rightarrow> breaker_call \<Rightarrow> breakers" where
  "apply_call config cbs (Check key now) = snd (check_circuit_breaker config cbs key now)"
| "apply_call config cbs (Success key now) = record_success cbs key now"
| "apply_call config cbs (Failure key error_type now) =
     record_failure config cbs key error_type now"

definition apply_calls :: "SmartRetryConfig \<Rightarrow> breakers \<Rightarrow> breaker_call list \<Rightarrow> breakers" where
  "apply_calls config cbs cs = foldl (apply_call config) cbs cs"

text \<open>Consecutive \<open>check_circuit_breaker\<close> calls on one key: their results, in order,
  and the final dictionary.\<close>

fun checks ::
  "SmartRetryConfig \<Rightarrow> breakers \<Rightarrow> string \<Rightarrow> real list \<Rightarrow> bool list \<times> breakers" where
  "checks config cbs key [] = ([], cbs)"
| "checks config cbs key (t # ts) =
     (let (r, cbs1) = check_circuit_breaker config cbs key t;
          (rs, cbs2) = checks config cbs1 key ts
      in (r # rs, cbs2))"

definition hoc_ok :: "SmartRetryConfig \<Rightarrow> SmartCircuitBreakerState \<Rightarrow> bool" where
  "hoc_ok config b \<longleftrightarrow>
     0 \<le> half_open_calls b \<and> half_open_calls b \<le> half_open_max_calls config"

text \<open>The defaults of \<open>SmartRetryConfig\<close> come from \<open>constants.py\<close>, which is not
  among the sources; the worked examples use the policy below.\<close>

definition demo_config :: SmartRetryConfig where
  "demo_config =
     \<lparr>max_attempts = 3, base_delay = 1, max_delay = 60, exponential_factor = 2,
      jitter = False, failure_threshold = 5, recovery_timeout = 60,
      half_open_max_calls = 3, rate_limit_recovery_multiplier = 3 / 2\<rparr>"

text \<open>An operation that fails with HTTP 500 in every attempt, and one that fails with
  the message \<open>boom\<close>.\<close>

definition always_500 :: "unit world" where
  "always_500 =
     \<lparr>func = (\<lambda>a. Inl (HTTPStatusError 500 ''Internal Server Error'')),
      clock = (\<lambda>a. 0), random_draw = (\<lambda>a. 0), extract_retry_after = (\<lambda>e. None)\<rparr>"

definition always_boom :: "unit world" where
  "always_boom =
     \<lparr>func = (\<lambda>a. Inl (OtherException ''boom'')),
      clock = (\<lambda>a. 0), random_draw = (\<lambda>a. 0), extract_retry_after = (\<lambda>e. None)\<rparr>"

text \<open>An entry in state Open with the given \<open>last_failure_time\<close> and
  \<open>last_rate_limit_time\<close>.\<close>

definition open_since :: "real option \<Rightarrow> real option \<Rightarrow> SmartCircuitBreakerState" where
  "open_since tf tr =
     SmartCircuitBreakerState_init\<lparr>state := ''OPEN'', last_failure_time := tf,
                                   last_rate_limit_time := tr\<rparr>"






text \<open>Five server errors on one key, then a gate check after the recovery timeout.\<close>

definition trip_and_probe :: "breaker_call list" where
  "trip_and_probe =
     [Failure ''K'' SERVER_ERROR 1, Failure ''K'' SERVER_ERROR 2, Failure ''K'' SERVER_ERROR 3,
      Failure ''K'' SERVER_ERROR 4, Failure ''K'' SERVER_ERROR 5, Check ''K'' 100]"

text \<open>The run state after a failed attempt: the attempt is traced, \<open>last_error\<close> is
  assigned and, with a key, the failure is recorded.\<close>

definition failed_state ::
  "SmartRetryConfig \<Rightarrow> 'a world \<Rightarrow> string option \<Rightarrow> int \<Rightarrow> exn \<Rightarrow> run_state \<Rightarrow> run_state" where
  "failed_state config w key a e st =
     st\<lparr>invoked := invoked st @ [a], last_error := Some e,
        circuit_breakers :=
          (case key of
             Some k \<Rightarrow> if k \<noteq> []
                       then record_failure config (circuit_breakers st) k (classify_error e)
                              (clock w a)
                       else circuit_breakers st
           | None \<Rightarrow> circuit_breakers st)\<rparr>"

text \<open>The value of the local \<open>effective_max_attempts\<close> of \<open>execute_with_retry\<close>.\<close>

definition effective_max_attempts :: "SmartRetryConfig \<Rightarrow> int option \<Rightarrow> int" where
  "effective_max_attempts config max_attempts_arg =
     (case max_attempts_arg of
        Some n \<Rightarrow> if n \<noteq> 0 then n else max_attempts config
      | None \<Rightarrow> max_attempts config)"

section \<open>Facts about the worked examples\<close>

lemma classify_error_simps [simp]:
  "classify_error (HTTPStatusError status_code msg) =
     (if status_code = 429 then RATE_LIMIT
      else if status_code \<in> set [502, 503, 504] then SERVICE_UNAVAILABLE
      else if 500 \<le> status_code \<and> status_code < 600 then SERVER_ERROR
      else UNKNOWN)"
  "classify_error (TimeoutException msg) = TIMEOUT_ERROR"
  "classify_error (NetworkError msg) = NETWORK_ERROR"
  "classify_error (OtherException msg) =
     (if contains (lower msg) ''rate limit'' \<or> contains (lower msg) ''quota'' then RATE_LIMIT
      else if contains (lower msg) ''service unavailable'' \<or> contains (lower msg) ''overloaded''
        then SERVICE_UNAVAILABLE
      else if list_ex (\<lambda>code. contains (lower msg) code)
                [''500'', ''502'', ''503'', ''504'', ''507'']
        then SERVER_ERROR
      else UNKNOWN)"
  by (simp_all add: classify_error_def Let_def)

lemma demo_config_simps [simp]:
  "max_attempts demo_config = 3" "base_delay demo_config = 1" "max_delay demo_config = 60"
  "exponential_factor demo_config = 2" "jitter demo_config = False"
  "failure_threshold demo_config = 5" "recovery_timeout demo_config = 60"
  "half_open_max_calls demo_config = 3" "rate_limit_recovery_multiplier demo_config = 3 / 2"
  by (simp_all add: demo_config_def)

section \<open>Rate-limit failures and the failure threshold\<close>

lemma record_failures_snoc:
  "record_failures config cbs key et (ts @ [t]) =
     record_failure config (record_failures config cbs key et ts) key et t"
  by (simp add: record_failures_def)

lemma rate_limit_run:
  assumes thr: "failure_threshold config = 5"
    and fresh: "cbs key = None \<or> cbs key = Some SmartCircuitBreakerState_init"
    and ne: "ts \<noteq> []"
  shows "\<exists>b. record_failures config cbs key RATE_LIMIT ts key = Some b
           \<and> consecutive_rate_limits b = int (length ts)
           \<and> failure_count b = max 0 (int (length ts) - 15)
           \<and> state b = (if length ts \<ge> 20 then ''OPEN'' else ''CLOSED'')"
  using ne
proof (induction ts rule: rev_induct)
  case Nil
  then show ?case by simp
next
  case (snoc t ts)
  show ?case
  proof (cases "ts = []")
    case True
    with fresh thr show ?thesis
      by (auto simp: record_failures_def record_failure_def SmartCircuitBreakerState_init_def)
  next
    case False
    with snoc obtain b where b: "record_failures config cbs key RATE_LIMIT ts key = Some b"
      "consecutive_rate_limits b = int (length ts)"
      "failure_count b = max 0 (int (length ts) - 15)"
      "state b = (if length ts \<ge> 20 then ''OPEN'' else ''CLOSED'')"
      by blast
    show ?thesis
      unfolding record_failures_snoc
      using b thr by (simp add: record_failure_def Let_def)
  qed
qed

text \<open>
  C2 (amended). With \<open>failure_threshold = 5\<close>, from a fresh key (no entry yet, or the
  default Closed entry), after \<open>n \<ge> 1\<close> consecutive \<open>record_failure(key, RATE_LIMIT)\<close>
  calls the entry has \<open>consecutive_rate_limits = n\<close> and
  \<open>failure_count = max 0 (n - 15)\<close>: the 16th call is the first that increments
  \<open>failure_count\<close>, to 1. The state is Open exactly from the 20th call on, when
  \<open>failure_count\<close> reaches the threshold 5; through the 19th call it is Closed.
\<close>

theorem rate_limit_failures_open_at_20th:
  assumes "failure_threshold config = 5"
    and "cbs key = None \<or> cbs key = Some SmartCircuitBreakerState_init"
    and "ts \<noteq> []"
  shows "\<exists>b. record_failures config cbs key RATE_LIMIT ts key = Some b
           \<and> consecutive_rate_limits b = int (length ts)
           \<and> failure_count b = max 0 (int (length ts) - 15)
           \<and> (state b = ''OPEN'' \<longleftrightarrow> 20 \<le> length ts)
           \<and> (state b = ''CLOSED'' \<longleftrightarrow> length ts < 20)"
proof -
  from rate_limit_run [of config cbs key ts] assms obtain b where
    b: "record_failures config cbs key RATE_LIMIT ts key = Some b"
      "consecutive_rate_limits b = int (length ts)"
      "failure_count b = max 0 (int (length ts) - 15)"
      "state b = (if length ts \<ge> 20 then ''OPEN'' else ''CLOSED'')"
    by blast
  from b(4) have "(state b = ''OPEN'' \<longleftrightarrow> 20 \<le> length ts)"
    and "(state b = ''CLOSED'' \<longleftrightarrow> length ts < 20)"
    by (simp_all split: if_splits)
  with b(1-3) show ?thesis by blast
qed

theorem rate_limit_failures_open_at_20th_witness:
  "map_option state
     (record_failures demo_config (Map.empty(''K'' \<mapsto> SmartCircuitBreakerState_init)) ''K''
        RATE_LIMIT (replicate 19 0) ''K'') = Some ''CLOSED''
   \<and> map_option state
     (record_failures demo_config (Map.empty(''K'' \<mapsto> SmartCircuitBreakerState_init)) ''K''
        RATE_LIMIT (replicate 20 0) ''K'') = Some ''OPEN''
   \<and> map_option failure_count
     (record_failures demo_config (Map.empty(''K'' \<mapsto> SmartCircuitBreakerState_init)) ''K''
        RATE_LIMIT (replicate 16 0) ''K'') = Some 1"
  using
    rate_limit_failures_open_at_20th [of demo_config
      "Map.empty(''K'' \<mapsto> SmartCircuitBreakerState_init)" "''K''" "replicate 19 0"]
    rate_limit_failures_open_at_20th [of demo_config
      "Map.empty(''K'' \<mapsto> SmartCircuitBreakerState_init)" "''K''" "replicate 20 0"]
    rate_limit_failures_open_at_20th [of demo_config
      "Map.empty(''K'' \<mapsto> SmartCircuitBreakerState_init)" "''K''" "replicate 16 0"]
  by auto

text \<open>
  C2 as stated fails: with \<open>failure_threshold = 5\<close>, after the 16th consecutive
  rate-limit failure on a fresh Closed key the state is still Closed.
\<close>

theorem rate_limit_16th_does_not_open:
  "map_option state
     (record_failures demo_config (Map.empty(''K'' \<mapsto> SmartCircuitBreakerState_init)) ''K''
        RATE_LIMIT (replicate 16 0) ''K'') = Some ''CLOSED''"
proof -
  have "\<exists>b. record_failures demo_config (Map.empty(''K'' \<mapsto> SmartCircuitBreakerState_init)) ''K''
        RATE_LIMIT (replicate 16 0) ''K'' = Some b \<and> state b = ''CLOSED''"
    using rate_limit_run [of demo_config "Map.empty(''K'' \<mapsto> SmartCircuitBreakerState_init)"
        "''K''" "replicate 16 0"]
    by auto
  then show ?thesis by auto
qed

section \<open>The gate on an Open key\<close>

text \<open>
  C3. For a key whose state is Open, let \<open>t\<close> be \<open>last_failure_time\<close> if set, else
  \<open>last_rate_limit_time\<close> if set. While \<open>now - t \<le> recovery_timeout\<close> the check
  returns false and changes nothing; once \<open>now - t > recovery_timeout\<close> it moves the
  key to HalfOpen with \<open>half_open_calls = 0\<close> and returns true; with neither time
  stamp set it moves the key to HalfOpen with \<open>half_open_calls = 0\<close> and returns true.
\<close>

theorem check_open_key:
  assumes "cbs key = Some b" and "state b = ''OPEN''"
  shows "(\<forall>t. last_failure_time b = Some t
              \<or> (last_failure_time b = None \<and> last_rate_limit_time b = Some t) \<longrightarrow>
            check_circuit_breaker config cbs key now =
              (if now - t \<le> recovery_timeout config then (False, cbs)
               else (True, cbs(key \<mapsto> b\<lparr>state := ''HALF_OPEN'', half_open_calls := 0\<rparr>))))
       \<and> (last_failure_time b = None \<and> last_rate_limit_time b = None \<longrightarrow>
            check_circuit_breaker config cbs key now =
              (True, cbs(key \<mapsto> b\<lparr>state := ''HALF_OPEN'', half_open_calls := 0\<rparr>)))"
  using assms by (auto simp: check_circuit_breaker_def Let_def)

theorem check_open_key_witness:
  "fst (check_circuit_breaker demo_config (Map.empty(''K'' \<mapsto> open_since (Some 100) None))
          ''K'' 160) = False
   \<and> fst (check_circuit_breaker demo_config (Map.empty(''K'' \<mapsto> open_since (Some 100) None))
          ''K'' 161) = True
   \<and> fst (check_circuit_breaker demo_config (Map.empty(''K'' \<mapsto> open_since None (Some 100)))
          ''K'' 160) = False
   \<and> map_option state
       (snd (check_circuit_breaker demo_config (Map.empty(''K'' \<mapsto> open_since None (Some 100)))
          ''K'' 161) ''K'') = Some ''HALF_OPEN''
   \<and> fst (check_circuit_breaker demo_config (Map.empty(''K'' \<mapsto> open_since None None))
          ''K'' 0) = True"
  using
    check_open_key [of "Map.empty(''K'' \<mapsto> open_since (Some 100) None)" "''K''"
      "open_since (Some 100) None" demo_config 160]
    check_open_key [of "Map.empty(''K'' \<mapsto> open_since (Some 100) None)" "''K''"
      "open_since (Some 100) None" demo_config 161]
    check_open_key [of "Map.empty(''K'' \<mapsto> open_since None (Some 100))" "''K''"
      "open_since None (Some 100)" demo_config 160]
    check_open_key [of "Map.empty(''K'' \<mapsto> open_since None (Some 100))" "''K''"
      "open_since None (Some 100)" demo_config 161]
    check_open_key [of "Map.empty(''K'' \<mapsto> open_since None None)" "''K''"
      "open_since None None" demo_config 0]
  by (simp add: open_since_def)

section \<open>Recording a success\<close>

text \<open>
  C4 (amended). For a key absent from the store, \<open>record_success\<close> leaves the store
  unchanged: no entry is created. For a key that has an entry, it increments
  \<open>success_count\<close>, sets \<open>last_success_time\<close> to now and resets
  \<open>consecutive_rate_limits\<close> to 0.
\<close>

theorem record_success_effects:
  "(cbs key = None \<longrightarrow> record_success cbs key now = cbs)
   \<and> (\<forall>b. cbs key = Some b \<longrightarrow>
         (\<exists>b'. record_success cbs key now key = Some b'
             \<and> success_count b' = success_count b + 1
             \<and> last_success_time b' = Some now
             \<and> consecutive_rate_limits b' = 0))"
  by (auto simp: record_success_def Let_def)

theorem record_success_effects_witness:
  "record_success Map.empty ''K'' 7 = Map.empty
   \<and> map_option success_count
       (record_success (Map.empty(''K'' \<mapsto> SmartCircuitBreakerState_init)) ''K'' 7 ''K'') = Some 1
   \<and> map_option last_success_time
       (record_success (Map.empty(''K'' \<mapsto> SmartCircuitBreakerState_init)) ''K'' 7 ''K'')
       = Some (Some 7)"
  using record_success_effects [of Map.empty "''K''" 7]
    record_success_effects [of "Map.empty(''K'' \<mapsto> SmartCircuitBreakerState_init)" "''K''" 7]
  by (auto simp: SmartCircuitBreakerState_init_def)

text \<open>
  C4 as stated fails: after \<open>record_success\<close> on a key of the empty store the key
  still has no entry.
\<close>

theorem record_success_unseen_key_no_entry:
  "record_success Map.empty ''K'' 7 ''K'' = None"
  by (simp add: record_success_def)

section \<open>The status query\<close>

text \<open>
  C5 fails for an unseen key: the dictionary returned has the three keys \<open>state\<close>,
  \<open>failure_count\<close> and \<open>success_count\<close> only, while for a key that has an entry it
  has all seven.
\<close>

theorem status_unseen_key_three_fields:
  "map fst (get_circuit_breaker_status Map.empty ''K'') =
     [''state'', ''failure_count'', ''success_count'']
   \<and> map fst (get_circuit_breaker_status
                (Map.empty(''K'' \<mapsto> SmartCircuitBreakerState_init)) ''K'') =
     [''state'', ''failure_count'', ''success_count'', ''consecutive_rate_limits'',
      ''last_failure_time'', ''last_success_time'', ''last_rate_limit_time'']"
  by (simp add: get_circuit_breaker_status_def)

section \<open>The bound on half-open probes\<close>

lemma hoc_ok_check:
  assumes "0 \<le> half_open_max_calls config"
    and "\<forall>k b. cbs k = Some b \<longrightarrow> hoc_ok config b"
    and "snd (check_circuit_breaker config cbs key now) k = Some b"
  shows "hoc_ok config b"
  using assms
  by (auto simp: check_circuit_breaker_def Let_def hoc_ok_def SmartCircuitBreakerState_init_def
      split: option.splits if_splits)

lemma hoc_ok_record_success:
  assumes "\<forall>k b. cbs k = Some b \<longrightarrow> hoc_ok config b"
    and "record_success cbs key now k = Some b"
  shows "hoc_ok config b"
  using assms
  by (auto simp: record_success_def Let_def hoc_ok_def split: option.splits if_splits)

lemma hoc_ok_record_failure:
  assumes "0 \<le> half_open_max_calls config"
    and "\<forall>k b. cbs k = Some b \<longrightarrow> hoc_ok config b"
    and "record_failure config cbs key et now k = Some b"
  shows "hoc_ok config b"
  using assms
  by (auto simp: record_failure_def Let_def hoc_ok_def SmartCircuitBreakerState_init_def
      split: option.splits if_splits)

lemma hoc_ok_apply_call:
  assumes "0 \<le> half_open_max_calls config"
    and "\<forall>k b. cbs k = Some b \<longrightarrow> hoc_ok config b"
  shows "\<forall>k b. apply_call config cbs c k = Some b \<longrightarrow> hoc_ok config b"
proof (cases c)
  case (Check key now)
  with assms show ?thesis by (auto dest: hoc_ok_check)
next
  case (Success key now)
  with assms show ?thesis by (auto dest: hoc_ok_record_success)
next
  case (Failure key et now)
  with assms show ?thesis by (auto dest: hoc_ok_record_failure)
qed

lemma hoc_ok_apply_calls:
  assumes "0 \<le> half_open_max_calls config"
    and "\<forall>k b. cbs k = Some b \<longrightarrow> hoc_ok config b"
  shows "\<forall>k b. apply_calls config cbs cs k = Some b \<longrightarrow> hoc_ok config b"
proof (induction cs rule: rev_induct)
  case Nil
  from assms(2) show ?case by (simp add: apply_calls_def)
next
  case (snoc c cs)
  have "apply_calls config cbs (cs @ [c]) = apply_call config (apply_calls config cbs cs) c"
    by (simp add: apply_calls_def)
  with hoc_ok_apply_call [OF assms(1) snoc] show ?case by simp
qed

lemma enter_half_open:
  assumes "\<forall>b. cbs k = Some b \<longrightarrow> state b \<noteq> ''HALF_OPEN''"
    and "apply_call config cbs c k = Some b'" and "state b' = ''HALF_OPEN''"
  shows "half_open_calls b' = 0"
  using assms
  by (cases c)
     (auto simp: check_circuit_breaker_def record_success_def record_failure_def Let_def
        SmartCircuitBreakerState_init_def split: option.splits if_splits)

lemma check_half_open:
  assumes "cbs key = Some b" and "state b = ''HALF_OPEN''"
  shows "check_circuit_breaker config cbs key now =
           (if half_open_calls b < half_open_max_calls config
            then (True, cbs(key \<mapsto> b\<lparr>half_open_calls := half_open_calls b + 1\<rparr>))
            else (False, cbs))"
  using assms by (simp add: check_circuit_breaker_def Let_def)

lemma fst_checks_Cons:
  "fst (checks config cbs key (t # ts)) =
     fst (check_circuit_breaker config cbs key t)
     # fst (checks config (snd (check_circuit_breaker config cbs key t)) key ts)"
  by (simp add: case_prod_beta)

lemma checks_half_open:
  assumes "cbs key = Some b" and "state b = ''HALF_OPEN''"
  shows "fst (checks config cbs key ts) =
           replicate (min (length ts) (nat (half_open_max_calls config - half_open_calls b))) True
           @ replicate (length ts - nat (half_open_max_calls config - half_open_calls b)) False"
  using assms
proof (induction ts arbitrary: cbs b)
  case Nil
  then show ?case by simp
next
  case (Cons t ts)
  show ?case
  proof (cases "half_open_calls b < half_open_max_calls config")
    case True
    let ?b = "b\<lparr>half_open_calls := half_open_calls b + 1\<rparr>"
    have chk: "check_circuit_breaker config cbs key t = (True, cbs(key \<mapsto> ?b))"
      using check_half_open [of cbs key b config t] Cons.prems True by simp
    have ih: "fst (checks config (cbs(key \<mapsto> ?b)) key ts) =
           replicate (min (length ts) (nat (half_open_max_calls config - half_open_calls ?b))) True
           @ replicate (length ts - nat (half_open_max_calls config - half_open_calls ?b)) False"
      by (rule Cons.IH) (use Cons.prems in simp_all)
    have n: "nat (half_open_max_calls config - half_open_calls b) =
               Suc (nat (half_open_max_calls config - half_open_calls ?b))"
      using True by simp
    show ?thesis
      using ih by (simp add: fst_checks_Cons chk n del: checks.simps)
  next
    case False
    have chk: "check_circuit_breaker config cbs key t = (False, cbs)"
      using check_half_open [of cbs key b config t] Cons.prems False by simp
    have ih: "fst (checks config cbs key ts) =
           replicate (min (length ts) (nat (half_open_max_calls config - half_open_calls b))) True
           @ replicate (length ts - nat (half_open_max_calls config - half_open_calls b)) False"
      by (rule Cons.IH) (use Cons.prems in simp_all)
    have n: "nat (half_open_max_calls config - half_open_calls b) = 0"
      using False by simp
    show ?thesis
      using ih by (simp add: fst_checks_Cons chk n del: checks.simps)
  qed
qed

lemma trip_and_probe_state:
  "apply_calls demo_config Map.empty trip_and_probe ''K'' =
     Some \<lparr>failure_count = 5, success_count = 0, last_failure_time = Some 5,
           last_success_time = None, state = ''HALF_OPEN'', half_open_calls = 0,
           consecutive_rate_limits = 0, last_rate_limit_time = None\<rparr>"
  by (simp add: apply_calls_def trip_and_probe_def record_failure_def check_circuit_breaker_def
      SmartCircuitBreakerState_init_def Let_def)

text \<open>
  C6. With \<open>half_open_max_calls \<ge> 0\<close> (the policy requires \<open>\<ge> 1\<close>):
  in every store reached from the empty one by calls of \<open>check_circuit_breaker\<close>,
  \<open>record_success\<close> and \<open>record_failure\<close>, each entry has
  \<open>0 \<le> half_open_calls \<le> half_open_max_calls\<close>, and each of the three calls preserves
  this bound; a call that takes a key into HalfOpen leaves \<open>half_open_calls = 0\<close>; a
  check of a HalfOpen key increments \<open>half_open_calls\<close> and returns true while
  \<open>half_open_calls < half_open_max_calls\<close>, and returns false with the store unchanged
  otherwise; so consecutive checks of a key that has just entered HalfOpen return true
  exactly \<open>half_open_max_calls\<close> times and false from then on.
\<close>

theorem half_open_calls_bounded:
  assumes "0 \<le> half_open_max_calls config"
  shows "(\<forall>cs key b. apply_calls config Map.empty cs key = Some b \<longrightarrow>
            0 \<le> half_open_calls b \<and> half_open_calls b \<le> half_open_max_calls config)
       \<and> (\<forall>cbs c.
            (\<forall>k b. cbs k = Some b \<longrightarrow>
               0 \<le> half_open_calls b \<and> half_open_calls b \<le> half_open_max_calls config) \<longrightarrow>
            (\<forall>k b. apply_call config cbs c k = Some b \<longrightarrow>
               0 \<le> half_open_calls b \<and> half_open_calls b \<le> half_open_max_calls config))
       \<and> (\<forall>cbs c k b'.
            (\<forall>b. cbs k = Some b \<longrightarrow> state b \<noteq> ''HALF_OPEN'')
            \<and> apply_call config cbs c k = Some b' \<and> state b' = ''HALF_OPEN'' \<longrightarrow>
            half_open_calls b' = 0)
       \<and> (\<forall>cbs key b now.
            cbs key = Some b \<and> state b = ''HALF_OPEN'' \<longrightarrow>
            check_circuit_breaker config cbs key now =
              (if half_open_calls b < half_open_max_calls config
               then (True, cbs(key \<mapsto> b\<lparr>half_open_calls := half_open_calls b + 1\<rparr>))
               else (False, cbs)))
       \<and> (\<forall>cbs key b ts.
            cbs key = Some b \<and> state b = ''HALF_OPEN'' \<and> half_open_calls b = 0 \<longrightarrow>
            fst (checks config cbs key ts) =
              replicate (min (length ts) (nat (half_open_max_calls config))) True
              @ replicate (length ts - nat (half_open_max_calls config)) False)"
proof -
  have reach: "\<forall>cs key b. apply_calls config Map.empty cs key = Some b \<longrightarrow>
            0 \<le> half_open_calls b \<and> half_open_calls b \<le> half_open_max_calls config"
    using hoc_ok_apply_calls [OF assms, of Map.empty] by (simp add: hoc_ok_def)
  have pres: "\<forall>cbs c.
            (\<forall>k b. cbs k = Some b \<longrightarrow>
               0 \<le> half_open_calls b \<and> half_open_calls b \<le> half_open_max_calls config) \<longrightarrow>
            (\<forall>k b. apply_call config cbs c k = Some b \<longrightarrow>
               0 \<le> half_open_calls b \<and> half_open_calls b \<le> half_open_max_calls config)"
    using hoc_ok_apply_call [OF assms] unfolding hoc_ok_def by blast
  have enter: "\<forall>cbs c k b'.
            (\<forall>b. cbs k = Some b \<longrightarrow> state b \<noteq> ''HALF_OPEN'')
            \<and> apply_call config cbs c k = Some b' \<and> state b' = ''HALF_OPEN'' \<longrightarrow>
            half_open_calls b' = 0"
    using enter_half_open [of _ _ config] by blast
  have probe: "\<forall>cbs key b now.
            cbs key = Some b \<and> state b = ''HALF_OPEN'' \<longrightarrow>
            check_circuit_breaker config cbs key now =
              (if half_open_calls b < half_open_max_calls config
               then (True, cbs(key \<mapsto> b\<lparr>half_open_calls := half_open_calls b + 1\<rparr>))
               else (False, cbs))"
    using check_half_open [of _ _ _ config] by blast
  have run: "\<forall>cbs key b ts.
            cbs key = Some b \<and> state b = ''HALF_OPEN'' \<and> half_open_calls b = 0 \<longrightarrow>
            fst (checks config cbs key ts) =
              replicate (min (length ts) (nat (half_open_max_calls config))) True
              @ replicate (length ts - nat (half_open_max_calls config)) False"
  proof (intro allI impI)
    fix cbs :: breakers and key :: string and b :: SmartCircuitBreakerState
      and ts :: "real list"
    assume "cbs key = Some b \<and> state b = ''HALF_OPEN'' \<and> half_open_calls b = 0"
    then show "fst (checks config cbs key ts) =
              replicate (min (length ts) (nat (half_open_max_calls config))) True
              @ replicate (length ts - nat (half_open_max_calls config)) False"
      using checks_half_open [of cbs key b config ts] by simp
  qed
  show ?thesis
    by (rule conjI [OF reach conjI [OF pres conjI [OF enter conjI [OF probe run]]]])
qed

theorem half_open_calls_bounded_witness:
  "0 \<le> half_open_max_calls demo_config
   \<and> map_option state (apply_calls demo_config Map.empty trip_and_probe ''K'') = Some ''HALF_OPEN''
   \<and> map_option half_open_calls (apply_calls demo_config Map.empty trip_and_probe ''K'') = Some 0
   \<and> fst (checks demo_config (apply_calls demo_config Map.empty trip_and_probe) ''K''
            [101, 102, 103, 104, 105]) = [True, True, True, False, False]"
proof -
  have h: "0 \<le> half_open_max_calls demo_config" by simp
  note t = half_open_calls_bounded [OF h]
  from t have seq: "\<And>cbs key b ts.
      cbs key = Some b \<Longrightarrow> state b = ''HALF_OPEN'' \<Longrightarrow> half_open_calls b = 0 \<Longrightarrow>
      fst (checks demo_config cbs key ts) =
        replicate (min (length ts) (nat (half_open_max_calls demo_config))) True
        @ replicate (length ts - nat (half_open_max_calls demo_config)) False"
    by blast
  have "fst (checks demo_config (apply_calls demo_config Map.empty trip_and_probe) ''K''
            [101, 102, 103, 104, 105]) = [True, True, True, False, False]"
    using seq [of "apply_calls demo_config Map.empty trip_and_probe" "''K''" _
        "[101, 102, 103, 104, 105]", OF trip_and_probe_state]
    by (simp add: eval_nat_numeral)
  with h show ?thesis by (simp add: trip_and_probe_state)
qed

section \<open>Bounds on the backoff delay\<close>


lemma power_in_range_0 [simp]: "power_in_range x 0"
  by (simp add: power_in_range_def rounds_to_inf_def)
















section \<open>Runs of the retry loop\<close>

declare retry_loop.simps [simp del]


lemma retry_loop_done:
  "N < a \<Longrightarrow> retry_loop config w key N a st = after_loop st"
  by (simp add: retry_loop.simps)

lemma retry_loop_success:
  assumes "a \<le> N" and "func w a = Inr x"
  shows "retry_loop config w key N a st =
     (Inr x,
      st\<lparr>invoked := invoked st @ [a],
         circuit_breakers :=
           (case key of
              Some k \<Rightarrow> if k \<noteq> [] then record_success (circuit_breakers st) k (clock w a)
                        else circuit_breakers st
            | None \<Rightarrow> circuit_breakers st)\<rparr>)"
  using assms by (simp add: retry_loop.simps)

lemma retry_loop_stop:
  assumes "a \<le> N" and "func w a = Inl e" and "\<not> should_retry config e a \<or> N \<le> a"
  shows "retry_loop config w key N a st =
           (Inl (Reraised e), failed_state config w key a e st)"
  using assms by (auto simp: retry_loop.simps Let_def after_loop_def failed_state_def)

lemma retry_loop_retry:
  assumes "a < N" and "func w a = Inl e" and "should_retry config e a"
    and "calculate_delay config a (classify_error e) (extract_retry_after w e) (random_draw w a)
           = Inr d"
  shows "retry_loop config w key N a st =
           retry_loop config w key N (a + 1)
             ((failed_state config w key a e st)\<lparr>sleeps := sleeps st @ [d]\<rparr>)"
  using assms by (subst retry_loop.simps) (simp add: Let_def failed_state_def)


lemma retry_loop_delay_error:
  assumes "a < N" and "func w a = Inl e" and "should_retry config e a"
    and "calculate_delay config a (classify_error e) (extract_retry_after w e) (random_draw w a)
           = Inl err"
  shows "retry_loop config w key N a st =
           (Inl (Delay_error err), failed_state config w key a e st)"
  using assms by (subst retry_loop.simps) (simp add: Let_def failed_state_def)


lemma failed_state_untracked:
  assumes "key = None \<or> key = Some []"
  shows "failed_state config w key a e st = st\<lparr>invoked := invoked st @ [a], last_error := Some e\<rparr>"
  using assms by (auto simp: failed_state_def)

lemma retry_loop_run_induct [consumes 0, case_names finished success stop delay_error retry]:
  fixes P :: "int \<Rightarrow> run_state \<Rightarrow> (failure + 'a) \<times> run_state \<Rightarrow> bool"
    and w :: "'a world"
  assumes finished: "\<And>a st. N < a \<Longrightarrow> P a st (after_loop st)"
    and success: "\<And>a st x. a \<le> N \<Longrightarrow> func w a = Inr x \<Longrightarrow>
        P a st (Inr x,
          st\<lparr>invoked := invoked st @ [a],
             circuit_breakers :=
               (case key of
                  Some k \<Rightarrow> if k \<noteq> [] then record_success (circuit_breakers st) k (clock w a)
                            else circuit_breakers st
                | None \<Rightarrow> circuit_breakers st)\<rparr>)"
    and stop: "\<And>a st e. a \<le> N \<Longrightarrow> func w a = Inl e \<Longrightarrow> \<not> should_retry config e a \<or> N \<le> a \<Longrightarrow>
        P a st (Inl (Reraised e), failed_state config w key a e st)"
    and delay_error: "\<And>a st e err. a < N \<Longrightarrow> func w a = Inl e \<Longrightarrow> should_retry config e a \<Longrightarrow>
        calculate_delay config a (classify_error e) (extract_retry_after w e) (random_draw w a)
          = Inl err \<Longrightarrow>
        P a st (Inl (Delay_error err), failed_state config w key a e st)"
    and retry: "\<And>a st e d. a < N \<Longrightarrow> func w a = Inl e \<Longrightarrow> should_retry config e a \<Longrightarrow>
        calculate_delay config a (classify_error e) (extract_retry_after w e) (random_draw w a)
          = Inr d \<Longrightarrow>
        P (a + 1) ((failed_state config w key a e st)\<lparr>sleeps := sleeps st @ [d]\<rparr>)
          (retry_loop config w key N (a + 1)
             ((failed_state config w key a e st)\<lparr>sleeps := sleeps st @ [d]\<rparr>)) \<Longrightarrow>
        P a st
          (retry_loop config w key N (a + 1)
             ((failed_state config w key a e st)\<lparr>sleeps := sleeps st @ [d]\<rparr>))"
  shows "P a st (retry_loop config w key N a st)"
proof (induction "nat (N + 1 - a)" arbitrary: a st rule: less_induct)
  case less
  show ?case
  proof (cases "a \<le> N")
    case False
    then show ?thesis by (simp add: retry_loop_done finished)
  next
    case True
    show ?thesis
    proof (cases "func w a")
      case (Inr x)
      show ?thesis
        unfolding retry_loop_success [OF True Inr] by (rule success [OF True Inr])
    next
      case (Inl e)
      show ?thesis
      proof (cases "should_retry config e a \<and> a < N")
        case False
        then have st: "\<not> should_retry config e a \<or> N \<le> a" by auto
        show ?thesis
          unfolding retry_loop_stop [OF True Inl st] by (rule stop [OF True Inl st])
      next
        case go: True
        then have lt: "a < N" and sr: "should_retry config e a" by simp_all
        show ?thesis
        proof (cases "calculate_delay config a (classify_error e) (extract_retry_after w e)
                        (random_draw w a)")
          case err: (Inl err)
          show ?thesis
            unfolding retry_loop_delay_error [OF lt Inl sr err]
            by (rule delay_error [OF lt Inl sr err])
        next
          case d: (Inr d)
          have "nat (N + 1 - (a + 1)) < nat (N + 1 - a)" using lt by simp
          from less.hyps [OF this]
          show ?thesis
            unfolding retry_loop_retry [OF lt Inl sr d]
            by (intro retry [OF lt Inl sr d])
        qed
      qed
    qed
  qed
qed

lemma retry_loop_untracked_breakers:
  assumes "key = None \<or> key = Some []"
  shows "circuit_breakers (snd (retry_loop config w key N a st)) = circuit_breakers st"
proof -
  have "circuit_breakers (snd (retry_loop config w key N a st)) = circuit_breakers st"
    (is "?P a st (retry_loop config w key N a st)")
  proof (induction rule: retry_loop_run_induct [where P = ?P])
    case (finished a st)
    then show ?case by (simp add: after_loop_def split: option.splits)
  next
    case (success a st x)
    with assms show ?case by auto
  next
    case (stop a st e)
    then show ?case by (simp add: failed_state_untracked [OF assms])
  next
    case (delay_error a st e err)
    then show ?case by (simp add: failed_state_untracked [OF assms])
  next
    case (retry a st e d)
    then show ?case by (simp add: failed_state_untracked [OF assms])
  qed
  then show ?thesis .
qed

lemma retry_loop_empty_key:
  "retry_loop config w (Some []) N a st = retry_loop config w None N a st"
proof -
  have "retry_loop config w (Some []) N a st = retry_loop config w None N a st"
    (is "?P a st (retry_loop config w (Some []) N a st)")
  proof (induction rule: retry_loop_run_induct [where P = "\<lambda>a st r. r = retry_loop config w None N a st"])
    case (finished a st)
    then show ?case by (simp add: retry_loop_done)
  next
    case (success a st x)
    then show ?case by (simp add: retry_loop_success)
  next
    case (stop a st e)
    then show ?case by (simp add: retry_loop_stop failed_state_def)
  next
    case (delay_error a st e err)
    then show ?case by (simp add: retry_loop_delay_error failed_state_def)
  next
    case (retry a st e d)
    have "retry_loop config w None N a st =
            retry_loop config w None N (a + 1)
              ((failed_state config w None a e st)\<lparr>sleeps := sleeps st @ [d]\<rparr>)"
      using retry(1-4) by (rule retry_loop_retry)
    with retry(5) show ?case by (simp add: failed_state_def)
  qed
  then show ?thesis .
qed

lemma retry_loop_not_circuit_open:
  "fst (retry_loop config w key N a st) \<noteq> Inl (RuntimeError_circuit_open k)"
proof -
  have "fst (retry_loop config w key N a st) \<noteq> Inl (RuntimeError_circuit_open k)"
    (is "?P a st (retry_loop config w key N a st)")
  proof (induction rule: retry_loop_run_induct [where P = ?P])
    case (finished a st)
    then show ?case by (simp add: after_loop_def split: option.splits)
  qed simp_all
  then show ?thesis .
qed

text \<open>
  C10. With the empty string as key, \<open>execute_with_retry\<close> behaves as with no key: the
  two runs are equal, the dictionary of breakers is returned unchanged (the gate check
  is skipped and neither a success nor a failure is recorded), and the call is never
  rejected by a breaker, whatever is stored under the empty-string key.
\<close>

theorem empty_key_disables_circuit_breaker:
  "execute_with_retry config cbs w (Some []) override = execute_with_retry config cbs w None override
   \<and> circuit_breakers (snd (execute_with_retry config cbs w (Some []) override)) = cbs
   \<and> fst (execute_with_retry config cbs w (Some []) override) \<noteq> Inl (RuntimeError_circuit_open k)"
  by (simp add: execute_with_retry_def Let_def retry_loop_not_circuit_open retry_loop_empty_key
      retry_loop_untracked_breakers)

theorem empty_key_disables_circuit_breaker_witness:
  "circuit_breakers (snd (execute_with_retry demo_config
       (Map.empty([] \<mapsto> open_since (Some 0) None)) always_boom (Some []) None))
     = Map.empty([] \<mapsto> open_since (Some 0) None)
   \<and> fst (check_circuit_breaker demo_config (Map.empty([] \<mapsto> open_since (Some 0) None)) [] 0)
       = False"
proof -
  have "circuit_breakers (snd (execute_with_retry demo_config
       (Map.empty([] \<mapsto> open_since (Some 0) None)) always_boom (Some []) None))
     = Map.empty([] \<mapsto> open_since (Some 0) None)"
    using empty_key_disables_circuit_breaker [of demo_config
      "Map.empty([] \<mapsto> open_since (Some 0) None)" always_boom None "[]"]
    by blast
  moreover
  have "fst (check_circuit_breaker demo_config (Map.empty([] \<mapsto> open_since (Some 0) None)) [] 0)
       = False"
    by (simp add: check_circuit_breaker_def open_since_def SmartCircuitBreakerState_init_def)
  ultimately show ?thesis by (rule conjI)
qed

section \<open>Outcomes of \<open>execute_with_retry\<close>\<close>









text \<open>
  C1 fails on the code: \<open>should_retry\<close> compares the attempt with the policy's
  \<open>max_attempts\<close>, not with the per-call override. With a policy of 3 attempts, an
  override of 5 and an operation that fails with HTTP 500 in every attempt, the operation
  is invoked in attempts 1, 2 and 3 only, and the error of attempt 3 is raised.
\<close>

theorem override_above_policy_max_is_cut_short:
  "max_attempts demo_config = 3
   \<and> classify_error (HTTPStatusError 500 ''Internal Server Error'') = SERVER_ERROR
   \<and> invoked (snd (execute_with_retry demo_config Map.empty always_500 None (Some 5))) = [1, 2, 3]
   \<and> fst (execute_with_retry demo_config Map.empty always_500 None (Some 5))
       = Inl (Reraised (HTTPStatusError 500 ''Internal Server Error''))"
  by (simp add: execute_with_retry_def always_500_def retry_loop.simps should_retry_def
      calculate_delay_def float_pow_def rounds_to_inf_def Let_def after_loop_def demo_config_def)

end
